theory Spec2Isabelle
  imports Complex_Main
begin

section \<open>The notebook \<open>02_theano_perceptron.ipynb\<close>\<close>

text \<open>
  The notebook filters CIFAR-10 down to the examples of the selected classes, builds a
  single sigmoid neuron with the Keras backend, and trains it by hand with full-batch
  gradient descent.

  Number model. The arrays handled here are \<open>float32\<close> arrays. A \<open>float32\<close> value
  is modelled as the real number it denotes; the conversion \<open>np.float32(...)\<close> of the
  \<open>uint8\<close> pixels and of the small label indexes is exact. The division of the
  pixels is a parameter of the filter, and the arithmetic of the training loop is kept
  polymorphic, so that what is proved about them does not depend on how they round. The
  model and the loss are expressions over backend functions whose bodies are not in the
  notebook; they are modelled on the real numbers, from the specification.
\<close>

subsection \<open>Errors\<close>

text \<open>
  The exceptions the filter can raise: \<open>ValueError\<close> (the explicit \<open>raise\<close>,
  \<open>tuple.index\<close> and \<open>list.index\<close> on a missing element, \<open>np.reshape\<close> on a size
  that does not fit, \<open>max\<close> of an array without elements) and \<open>IndexError\<close>
  (an index array that is not a boolean mask of the indexed length).
\<close>

datatype error = ValueError | IndexError

definition then_do :: "error + 'a \<Rightarrow> ('a \<Rightarrow> error + 'b) \<Rightarrow> error + 'b" where
  "then_do m f = (case m of Inl e \<Rightarrow> Inl e | Inr x \<Rightarrow> f x)"

subsection \<open>Constants of the notebook\<close>

definition height :: nat where "height = 32"
definition width :: nat where "width = 32"
definition channels :: nat where "channels = 3"

definition allowed :: "string list" where
  "allowed = [''airplane'', ''automobile'', ''bird'', ''cat'', ''deer'',
              ''dog'', ''frog'', ''horse'', ''ship'', ''truck'']"

subsection \<open>Python and numpy primitives used by the filter\<close>

text \<open>\<open>seq.index(v)\<close>: the position of the first element equal to \<open>v\<close>; raises
  \<open>ValueError\<close> when there is none.\<close>

fun index :: "'a list \<Rightarrow> 'a \<Rightarrow> error + nat" where
  "index [] v = Inl ValueError"
| "index (x # xs) v =
     (if x = v then Inr 0
      else case index xs v of Inl e \<Rightarrow> Inl e | Inr i \<Rightarrow> Inr (Suc i))"

text \<open>A list comprehension \<open>[f(x) for x in xs]\<close> whose body may raise: the first
  exception ends the comprehension.\<close>

fun comprehension :: "('a \<Rightarrow> error + 'b) \<Rightarrow> 'a list \<Rightarrow> error + 'b list" where
  "comprehension f [] = Inr []"
| "comprehension f (x # xs) =
     (case f x of
        Inl e \<Rightarrow> Inl e
      | Inr y \<Rightarrow> (case comprehension f xs of Inl e \<Rightarrow> Inl e | Inr ys \<Rightarrow> Inr (y # ys)))"

text \<open>\<open>arr[mask]\<close> with \<open>mask = np.array([... for y in Y])\<close>. The mask is a boolean
  array when the comprehension produced at least one element, and then it must have
  one entry per row of \<open>arr\<close>; \<open>np.array([])\<close> is a \<open>float64\<close> array, which is
  not a valid index. Both failures are \<open>IndexError\<close>.\<close>

definition boolean_index :: "'a list \<Rightarrow> bool list \<Rightarrow> error + 'a list" where
  "boolean_index arr msk =
     (if msk = [] \<or> length msk \<noteq> length arr then Inl IndexError
      else Inr (map fst (filter snd (zip arr msk))))"

text \<open>\<open>np.reshape(arr, (arr.shape[0], n))\<close>. An image is modelled as the sequence of
  its values in row-major order, which is the row that the reshape produces; the
  reshape succeeds when every image has exactly \<open>n\<close> values.\<close>

definition reshape :: "'a list list \<Rightarrow> nat \<Rightarrow> error + 'a list list" where
  "reshape arr n = (if list_all (\<lambda>img. length img = n) arr then Inr arr else Inl ValueError)"

text \<open>\<open>arr.max()\<close>: the largest entry of the whole array; \<open>ValueError\<close> on an
  array without entries.\<close>

definition array_max :: "real list list \<Rightarrow> error + real" where
  "array_max arr =
     (if concat arr = [] then Inl ValueError else Inr (Max (set (concat arr))))"

subsection \<open>The dataset filter\<close>

text \<open>
  A dataset is \<open>((X_train, Y_train), (X_val, Y_val))\<close>; \<open>X\<close> holds one image per row
  and \<open>Y\<close> one label per row (the \<open>y[0]\<close> of the source). The parameter \<open>fdiv\<close>
  is the \<open>float32\<close> division of an array entry by a scalar.
\<close>

type_synonym split = "real list list \<times> nat list"
type_synonym dataset = "split \<times> split"
type_synonym filtered = "(real list list \<times> real list) \<times> (real list list \<times> real list)"

definition select_classes_from_cifar10 ::
    "(real \<Rightarrow> real \<Rightarrow> real) \<Rightarrow> dataset \<Rightarrow> string list \<Rightarrow> error + filtered" where
  "select_classes_from_cifar10 fdiv dataset classes =
     (if (\<exists>cl \<in> set classes. \<not> cl \<in> set classes) \<or> \<not> length classes > 1
      then Inl ValueError
      else case dataset of ((X_train, Y_train), (X_val, Y_val)) \<Rightarrow>
        then_do (comprehension (index allowed) classes) (\<lambda>c_idx.
        let idx_train = map (\<lambda>y. y \<in> set c_idx) Y_train;
            idx_val = map (\<lambda>y. y \<in> set c_idx) Y_val
        in
        then_do (boolean_index X_train idx_train) (\<lambda>X_train1.
        then_do (reshape X_train1 (height * width * channels)) (\<lambda>X_train2.
        then_do (boolean_index X_val idx_val) (\<lambda>X_val1.
        then_do (reshape X_val1 (height * width * channels)) (\<lambda>X_val2.
        let s = sort c_idx in
        then_do (boolean_index Y_train idx_train) (\<lambda>Y_train1.
        then_do (comprehension (index s) Y_train1) (\<lambda>Y_train2.
        then_do (boolean_index Y_val idx_val) (\<lambda>Y_val1.
        then_do (comprehension (index s) Y_val1) (\<lambda>Y_val2.
        then_do (array_max X_train2) (\<lambda>m_train.
        then_do (array_max X_train2) (\<lambda>m_val.
          Inr ((map (map (\<lambda>v. fdiv v m_train)) X_train2, map real Y_train2),
               (map (map (\<lambda>v. fdiv v m_val)) X_val2, map real Y_val2))))))))))))))"

subsection \<open>What the filter is expected to return\<close>

text \<open>
  The vocabulary used to state the properties of the filter, written independently of
  the boolean masks of the source. \<open>class_id c\<close> is the position of the name \<open>c\<close>
  in \<open>allowed\<close>, and a label \<open>y\<close> is selected when it is the position of one of the
  requested names.
\<close>

definition class_id :: "string \<Rightarrow> nat" where
  "class_id c = length (takeWhile (\<lambda>x. x \<noteq> c) allowed)"

definition selected :: "string list \<Rightarrow> nat \<Rightarrow> bool" where
  "selected classes y \<longleftrightarrow> y < length allowed \<and> allowed ! y \<in> set classes"

text \<open>The examples of a split whose label is selected, in the order of the split.\<close>

definition keep :: "string list \<Rightarrow> split \<Rightarrow> (real list \<times> nat) list" where
  "keep classes sp = filter (\<lambda>(x, y). selected classes y) (zip (fst sp) (snd sp))"

text \<open>The new label of an original label: the number of requested names whose class
  index is smaller.\<close>

definition new_label :: "string list \<Rightarrow> nat \<Rightarrow> real" where
  "new_label classes y = real (length (filter (\<lambda>c. class_id c < y) classes))"

text \<open>A split the filter can process: it has at least one row, one label per image, and
  every selected image has \<open>height * width * channels\<close> values.\<close>

definition well_shaped :: "string list \<Rightarrow> split \<Rightarrow> bool" where
  "well_shaped classes sp \<longleftrightarrow>
     snd sp \<noteq> [] \<and> length (fst sp) = length (snd sp) \<and>
     (\<forall>x \<in> set (map fst (keep classes sp)). length x = height * width * channels)"

definition normalized :: "(real \<Rightarrow> real \<Rightarrow> real) \<Rightarrow> real \<Rightarrow> real list list \<Rightarrow> real list list" where
  "normalized fdiv m X = map (map (\<lambda>v. fdiv v m)) X"

definition filtered_split ::
    "(real \<Rightarrow> real \<Rightarrow> real) \<Rightarrow> real \<Rightarrow> string list \<Rightarrow> split \<Rightarrow> real list list \<times> real list" where
  "filtered_split fdiv m classes sp =
     (normalized fdiv m (map fst (keep classes sp)),
      map (\<lambda>(x, y). new_label classes y) (keep classes sp))"

text \<open>The largest pixel value among the selected examples of a split.\<close>

definition split_max :: "string list \<Rightarrow> split \<Rightarrow> real" where
  "split_max classes sp = Max (set (concat (map fst (keep classes sp))))"

text \<open>A \<open>float32\<close> division: the real quotient, rounded by \<open>rnd\<close>.\<close>

definition rounded_div :: "(real \<Rightarrow> real) \<Rightarrow> real \<Rightarrow> real \<Rightarrow> real" where
  "rounded_div rnd x m = rnd (x / m)"

subsection \<open>The variables and the state of the notebook\<close>

text \<open>
  The backend variables \<open>w\<close>, \<open>b\<close> and \<open>lr\<close> form the state that the compiled
  functions read and write; the notebook state adds the two loss histories and the
  lines printed by the training loop.
\<close>

record 'a variables =
  w :: "'a list"
  b :: 'a
  lr :: 'a

record 'a notebook = "'a variables" +
  train_loss_history :: "'a list"
  val_loss_history :: "'a list"
  printed :: "('a \<times> 'a) list"

type_synonym 'a inputs = "'a list list \<times> 'a list"
type_synonym 'a loss_graph = "'a list \<Rightarrow> 'a \<Rightarrow> 'a inputs \<Rightarrow> 'a"
type_synonym 'a grads_graph = "'a list \<Rightarrow> 'a \<Rightarrow> 'a inputs \<Rightarrow> 'a list \<times> 'a"

subsection \<open>The model\<close>

text \<open>
  \<open>y = K.sigmoid(K.dot(x, w) + b)\<close> and \<open>predict = K.function(inputs=[x], outputs=[y])\<close>.
  The notebook builds the expression; what \<open>K.sigmoid\<close> and \<open>K.dot\<close> compute is
  code of the backend.
\<close>

text \<open>Modelled from the spec: the body of \<open>K.sigmoid\<close> is missing. The specification
  calls it the logistic function mapping any real number to the open unit interval, and
  the notebook gives \<open>\<sigma>(z) = 1 / (1 + e^{-z})\<close>.\<close>

definition sigmoid :: "real \<Rightarrow> real" where
  "sigmoid z = 1 / (1 + exp (- z))"

text \<open>Modelled from the spec: the body of \<open>K.dot\<close> is missing. It is the dot product of
  a feature vector with the weight vector.\<close>

definition dot :: "real list \<Rightarrow> real list \<Rightarrow> real" where
  "dot x ws = sum_list (map2 (\<lambda>xi wi. xi * wi) x ws)"

text \<open>The value of \<open>y\<close> for the rows of \<open>x\<close>, one output per row. A row whose length is
  not the length of \<open>w\<close> is a shape mismatch, which the backend reports as an
  error.\<close>

definition predict :: "real list list \<Rightarrow> (real, 'z) variables_scheme \<Rightarrow> error + real list" where
  "predict x vs =
     (if list_all (\<lambda>row. length row = length (w vs)) x
      then Inr (map (\<lambda>row. sigmoid (dot row (w vs) + b vs)) x)
      else Inl ValueError)"

subsection \<open>The loss\<close>

text \<open>\<open>loss = K.mean(K.binary_crossentropy(output=y, target=target))\<close>. The notebook
  composes the two backend calls; their bodies are code of the backend.\<close>

text \<open>Modelled from the spec: the body of \<open>K.binary_crossentropy\<close> is missing. The
  specification calls it the standard binary cross-entropy of a predicted probability and
  a binary target, and the notebook gives \<open>L(t, p) = -t log(p) - (1 - t) log(1 - p)\<close>.\<close>

definition binary_crossentropy :: "real \<Rightarrow> real \<Rightarrow> real" where
  "binary_crossentropy output target = - target * ln output - (1 - target) * ln (1 - output)"

text \<open>Modelled from the spec: the body of \<open>K.mean\<close> is missing. It is the arithmetic mean
  over all examples of the batch.\<close>

definition mean :: "real list \<Rightarrow> real" where
  "mean xs = sum_list xs / real (length xs)"

definition loss :: "real list \<Rightarrow> real list \<Rightarrow> real" where
  "loss y target = mean (map2 binary_crossentropy y target)"

text \<open>A batch of predictions and targets as the loss expects it: at least one example,
  one target per prediction, predictions strictly between \<open>0\<close> and \<open>1\<close>, targets
  \<open>0\<close> or \<open>1\<close>.\<close>

definition batch :: "real list \<Rightarrow> real list \<Rightarrow> bool" where
  "batch ps ts \<longleftrightarrow>
     ps \<noteq> [] \<and> length ps = length ts \<and>
     (\<forall>p \<in> set ps. 0 < p \<and> p < 1) \<and> (\<forall>t \<in> set ts. t = 0 \<or> t = 1)"

subsection \<open>The update rule and the training loop\<close>

text \<open>
  The compiled functions evaluate the graph of \<open>loss\<close> and the graph of
  \<open>grads = K.gradients(loss, [w, b])\<close> on the current values of \<open>w\<close> and \<open>b\<close>
  and on the fed inputs \<open>[x, target]\<close>, in the arithmetic of the backend. Both
  evaluations are parameters of the model, \<open>loss_of\<close> and \<open>grads\<close>, and the number
  type is any type with a subtraction and a multiplication, so that what is proved about
  the loop holds for every way of computing and rounding them.
\<close>

text \<open>\<open>updates = [[w, w - lr * grads[0]], [b, b - lr * grads[1]]]\<close>: the new values of
  \<open>w\<close> and \<open>b\<close>, all computed from the values before the call.\<close>

definition updates ::
    "('a::{minus,times}) grads_graph \<Rightarrow> 'a inputs \<Rightarrow> ('a, 'z) variables_scheme \<Rightarrow> 'a list \<times> 'a" where
  "updates grads inputs vs =
     (let g = grads (w vs) (b vs) inputs
      in (map2 (\<lambda>wi gi. wi - lr vs * gi) (w vs) (fst g), b vs - lr vs * snd g))"

text \<open>\<open>train = K.function(inputs=[x, target], outputs=[loss], updates=updates)\<close>\<close>

definition train ::
    "('a::{minus,times}) loss_graph \<Rightarrow> 'a grads_graph \<Rightarrow> 'a inputs \<Rightarrow>
     ('a, 'z) variables_scheme \<Rightarrow> 'a list \<times> ('a, 'z) variables_scheme" where
  "train loss_of grads inputs vs =
     ([loss_of (w vs) (b vs) inputs],
      vs\<lparr>w := fst (updates grads inputs vs), b := snd (updates grads inputs vs)\<rparr>)"

text \<open>\<open>compute_loss = K.function(inputs=[x, target], outputs=[loss])\<close>\<close>

definition compute_loss ::
    "'a loss_graph \<Rightarrow> 'a inputs \<Rightarrow> ('a, 'z) variables_scheme \<Rightarrow> 'a list \<times> ('a, 'z) variables_scheme" where
  "compute_loss loss_of inputs vs = ([loss_of (w vs) (b vs) inputs], vs)"

text \<open>The body of \<open>for epoch in range(nb_epochs)\<close>. The block under
  \<open>if epoch % 10 == 0\<close> reads \<open>w\<close> and the histories, draws them, and prints the two
  losses; the model keeps the printed pair.\<close>

definition epoch_body ::
    "('a::{minus,times}) loss_graph \<Rightarrow> 'a grads_graph \<Rightarrow> 'a inputs \<Rightarrow> 'a inputs \<Rightarrow>
     nat \<Rightarrow> 'a notebook \<Rightarrow> 'a notebook" where
  "epoch_body loss_of grads train_set val_set epoch st =
     (let (out_train, st1) = train loss_of grads train_set st;
          loss_train = out_train ! 0;
          st2 = st1\<lparr>train_loss_history := train_loss_history st1 @ [loss_train]\<rparr>;
          (out_val, st3) = compute_loss loss_of val_set st2;
          loss_val = out_val ! 0;
          st4 = st3\<lparr>val_loss_history := val_loss_history st3 @ [loss_val]\<rparr>
      in if epoch mod 10 = 0 then st4\<lparr>printed := printed st4 @ [(loss_train, loss_val)]\<rparr> else st4)"

text \<open>The training cell for \<open>n\<close> epochs: both histories start empty, then the body runs for
  \<open>epoch = 0, ..., n - 1\<close>. The notebook runs it with \<open>n = nb_epochs\<close>.\<close>

definition training ::
    "('a::{minus,times}) loss_graph \<Rightarrow> 'a grads_graph \<Rightarrow> 'a inputs \<Rightarrow> 'a inputs \<Rightarrow>
     nat \<Rightarrow> 'a notebook \<Rightarrow> 'a notebook" where
  "training loss_of grads train_set val_set n st =
     fold (epoch_body loss_of grads train_set val_set) [0..<n]
       (st\<lparr>train_loss_history := [], val_loss_history := []\<rparr>)"

definition nb_epochs :: nat where "nb_epochs = 1000"

section \<open>Properties of the dataset filter\<close>

subsection \<open>The primitives\<close>

lemma then_do_Inr_iff: "then_do m f = Inr r \<longleftrightarrow> (\<exists>x. m = Inr x \<and> f x = Inr r)"
  by (cases m) (simp_all add: then_do_def)

lemma index_error: "index xs v = Inl e \<Longrightarrow> e = ValueError"
  by (induction xs arbitrary: e) (auto split: if_splits sum.splits)

lemma index_notin: "v \<notin> set xs \<Longrightarrow> index xs v = Inl ValueError"
  by (induction xs) auto

lemma index_in: "v \<in> set xs \<Longrightarrow> index xs v = Inr (length (takeWhile (\<lambda>x. x \<noteq> v) xs))"
  by (induction xs) auto

lemma comprehension_Inl: "comprehension f xs = Inl e \<Longrightarrow> \<exists>x \<in> set xs. f x = Inl e"
  by (induction xs) (auto split: sum.splits)

lemma comprehension_fails: "x \<in> set xs \<Longrightarrow> f x = Inl e \<Longrightarrow> \<exists>e'. comprehension f xs = Inl e'"
  by (induction xs) (auto split: sum.splits)

lemma comprehension_map: "(\<And>x. x \<in> set xs \<Longrightarrow> f x = Inr (g x)) \<Longrightarrow> comprehension f xs = Inr (map g xs)"
  by (induction xs) auto

lemma index_sorted: "sorted xs \<Longrightarrow> v \<in> set xs \<Longrightarrow> index xs v = Inr (length (filter (\<lambda>z. z < v) xs))" for v :: nat
proof (induction xs)
  case Nil
  then show ?case by simp
next
  case (Cons x xs)
  show ?case
  proof (cases "x = v")
    case True
    have "filter (\<lambda>z. z < v) xs = []"
      using Cons.prems(1) True by (auto simp: filter_empty_conv)
    with True show ?thesis by simp
  next
    case False
    with Cons.prems have "v \<in> set xs" "x < v" "sorted xs" by auto
    with Cons.IH False show ?thesis by simp
  qed
qed

lemma length_filter_sort: "length (filter P (sort xs)) = length (filter P xs)" for xs :: "nat list"
  by (simp add: filter_sort)

lemma index_sort: "v \<in> set xs \<Longrightarrow> index (sort xs) v = Inr (length (filter (\<lambda>z. z < v) xs))" for v :: nat
  using index_sorted [of "sort xs" v] by (simp add: length_filter_sort)

lemma boolean_index_Inr_iff:
  "boolean_index arr msk = Inr r \<longleftrightarrow> msk \<noteq> [] \<and> length msk = length arr \<and> r = map fst (filter snd (zip arr msk))"
  by (auto simp: boolean_index_def)

lemma filter_zip_map: "map fst (filter snd (zip xs (map P ys))) = map fst (filter (\<lambda>(x, y). P y) (zip xs ys))"
proof (induction xs arbitrary: ys)
  case Nil
  then show ?case by simp
next
  case (Cons x xs)
  then show ?case by (cases ys) auto
qed

lemma filter_self_map: "map fst (filter snd (zip ys (map P ys))) = filter P ys"
  by (induction ys) auto

lemma distinct_allowed: "distinct allowed"
  by (simp add: allowed_def)

lemma takeWhile_nth_distinct:
  "distinct xs \<Longrightarrow> i < length xs \<Longrightarrow> length (takeWhile (\<lambda>x. x \<noteq> xs ! i) xs) = i"
proof (induction xs arbitrary: i)
  case Nil
  then show ?case by simp
next
  case (Cons x xs)
  then show ?case by (cases i) auto
qed

lemma class_id_nth: "i < length allowed \<Longrightarrow> class_id (allowed ! i) = i"
  unfolding class_id_def by (rule takeWhile_nth_distinct [OF distinct_allowed])

lemma takeWhile_neq_in:
  "c \<in> set xs \<Longrightarrow> length (takeWhile (\<lambda>x. x \<noteq> c) xs) < length xs \<and> xs ! length (takeWhile (\<lambda>x. x \<noteq> c) xs) = c"
  by (induction xs) auto

lemma class_id_in: "c \<in> set allowed \<Longrightarrow> class_id c < length allowed \<and> allowed ! class_id c = c"
  unfolding class_id_def by (rule takeWhile_neq_in)

lemma index_allowed: "c \<in> set allowed \<Longrightarrow> index allowed c = Inr (class_id c)"
  by (simp add: index_in class_id_def)

lemma selected_iff: "set classes \<subseteq> set allowed \<Longrightarrow> selected classes y \<longleftrightarrow> y \<in> set (map class_id classes)"
proof
  assume sub: "set classes \<subseteq> set allowed" and "selected classes y"
  then have "y < length allowed" "allowed ! y \<in> set classes" by (simp_all add: selected_def)
  then have "class_id (allowed ! y) = y" by (simp add: class_id_nth)
  with \<open>allowed ! y \<in> set classes\<close> show "y \<in> set (map class_id classes)" by force
next
  assume sub: "set classes \<subseteq> set allowed" and "y \<in> set (map class_id classes)"
  then obtain c where "c \<in> set classes" "y = class_id c" by auto
  with sub class_id_in [of c] show "selected classes y" by (auto simp: selected_def)
qed

lemma map_snd_filter_zip:
  "length xs = length ys \<Longrightarrow> map snd (filter (\<lambda>(x, y). P y) (zip xs ys)) = filter P ys"
  by (induction xs ys rule: list_induct2) auto

lemma comprehension_classes:
  "set classes \<subseteq> set allowed \<Longrightarrow> comprehension (index allowed) classes = Inr (map class_id classes)"
  by (rule comprehension_map) (auto simp: index_allowed)

lemma comprehension_labels:
  assumes "set classes \<subseteq> set allowed"
  shows "comprehension (index (sort (map class_id classes))) (filter (selected classes) ys)
         = Inr (map (\<lambda>y. length (filter (\<lambda>c. class_id c < y) classes)) (filter (selected classes) ys))"
proof (rule comprehension_map)
  fix y assume "y \<in> set (filter (selected classes) ys)"
  then have "y \<in> set (map class_id classes)" using assms by (simp add: selected_iff)
  then have "index (sort (map class_id classes)) y
             = Inr (length (filter (\<lambda>z. z < y) (map class_id classes)))"
    by (rule index_sort)
  then show "index (sort (map class_id classes)) y
        = Inr (length (filter (\<lambda>c. class_id c < y) classes))"
    by (simp add: filter_map comp_def)
qed

lemma concat_keep_empty:
  assumes "\<forall>x \<in> set X. length x = height * width * channels"
  shows "concat X = [] \<longleftrightarrow> X = []"
proof -
  have "0 < height * width * channels" by (simp add: height_def width_def channels_def)
  with assms have "\<forall>x \<in> set X. x \<noteq> []" by fastforce
  then show ?thesis by (cases X) auto
qed

lemma then_do_Inr: "then_do (Inr x) f = f x"
  by (simp add: then_do_def)

lemma then_do_Inl: "then_do (Inl e) f = Inl e"
  by (simp add: then_do_def)

lemma boolean_index_X:
  assumes "set classes \<subseteq> set allowed" "length X = length Y" "Y \<noteq> []"
  shows "boolean_index X (map (\<lambda>y. y \<in> set (map class_id classes)) Y) = Inr (map fst (keep classes (X, Y)))"
proof -
  have "(\<lambda>y. y \<in> set (map class_id classes)) = selected classes"
    using assms(1) by (simp add: selected_iff fun_eq_iff)
  then show ?thesis using assms(2,3)
    by (simp add: boolean_index_def filter_zip_map keep_def)
qed

lemma boolean_index_Y:
  assumes "set classes \<subseteq> set allowed" "Y \<noteq> []"
  shows "boolean_index Y (map (\<lambda>y. y \<in> set (map class_id classes)) Y) = Inr (filter (selected classes) Y)"
proof -
  have "(\<lambda>y. y \<in> set (map class_id classes)) = selected classes"
    using assms(1) by (simp add: selected_iff fun_eq_iff)
  then show ?thesis using assms(2)
    by (simp add: boolean_index_def filter_self_map)
qed

lemma labels_keep:
  assumes "length X = length Y"
  shows "map real (map (\<lambda>y. length (filter (\<lambda>c. class_id c < y) classes)) (filter (selected classes) Y))
         = map (\<lambda>(x, y). new_label classes y) (keep classes (X, Y))"
proof -
  have "filter (selected classes) Y = map snd (keep classes (X, Y))"
    using map_snd_filter_zip [OF assms, of "selected classes"] by (simp add: keep_def)
  then show ?thesis by (simp add: new_label_def comp_def case_prod_unfold)
qed

lemma select_unfold:
  assumes "1 < length classes" "set classes \<subseteq> set allowed"
    and "length Xt = length Yt" "length Xv = length Yv" "Yt \<noteq> []" "Yv \<noteq> []"
  shows "select_classes_from_cifar10 fdiv ((Xt, Yt), (Xv, Yv)) classes =
     then_do (reshape (map fst (keep classes (Xt, Yt))) (height * width * channels)) (\<lambda>X_train2.
     then_do (reshape (map fst (keep classes (Xv, Yv))) (height * width * channels)) (\<lambda>X_val2.
     then_do (array_max X_train2) (\<lambda>m.
        Inr ((normalized fdiv m X_train2, map (\<lambda>(x, y). new_label classes y) (keep classes (Xt, Yt))),
             (normalized fdiv m X_val2, map (\<lambda>(x, y). new_label classes y) (keep classes (Xv, Yv)))))))"
proof -
  have guard: "\<not> ((\<exists>cl \<in> set classes. \<not> cl \<in> set classes) \<or> \<not> length classes > 1)"
    using assms(1) by simp
  have twice: "then_do (array_max A) (\<lambda>m1. then_do (array_max A) (\<lambda>m2. Inr (g m1 m2)))
               = then_do (array_max A) (\<lambda>m. Inr (g m m))" for A and g :: "real \<Rightarrow> real \<Rightarrow> filtered"
    by (cases "array_max A") (simp_all add: then_do_Inr then_do_Inl)
  show ?thesis
    unfolding select_classes_from_cifar10_def Let_def
    apply (simp only: guard if_False prod.case comprehension_classes [OF assms(2)] then_do_Inr
        boolean_index_X [OF assms(2,3,5)] boolean_index_X [OF assms(2,4,6)]
        boolean_index_Y [OF assms(2,5)] boolean_index_Y [OF assms(2,6)]
        comprehension_labels [OF assms(2)] labels_keep [OF assms(3)] labels_keep [OF assms(4)] twice)
    apply (simp only: normalized_def)
    done
qed

lemma select_Inr_lengths:
  assumes "1 < length classes" "set classes \<subseteq> set allowed"
    and "select_classes_from_cifar10 fdiv ((Xt, Yt), (Xv, Yv)) classes = Inr r"
  shows "Yt \<noteq> [] \<and> length Xt = length Yt \<and> Yv \<noteq> [] \<and> length Xv = length Yv"
proof -
  have guard: "\<not> ((\<exists>cl \<in> set classes. \<not> cl \<in> set classes) \<or> \<not> length classes > 1)"
    using assms(1) by simp
  from assms(3) show ?thesis
    unfolding select_classes_from_cifar10_def Let_def
    apply (simp only: guard if_False prod.case comprehension_classes [OF assms(2)] then_do_Inr)
    apply (simp only: then_do_Inr_iff boolean_index_Inr_iff)
    apply (elim exE conjE)
    apply simp
    done
qed

lemma reshape_Inr_iff: "reshape arr n = Inr r \<longleftrightarrow> (\<forall>x \<in> set arr. length x = n) \<and> r = arr"
  by (auto simp: reshape_def list_all_iff)

lemma select_returns_iff:
  assumes "1 < length classes" "set classes \<subseteq> set allowed"
  shows "select_classes_from_cifar10 fdiv (tr, va) classes = Inr r \<longleftrightarrow>
         well_shaped classes tr \<and> well_shaped classes va \<and> keep classes tr \<noteq> [] \<and>
         r = (filtered_split fdiv (split_max classes tr) classes tr,
              filtered_split fdiv (split_max classes tr) classes va)"
    (is "?L \<longleftrightarrow> ?R")
proof -
  obtain Xt Yt Xv Yv where tr: "tr = (Xt, Yt)" and va: "va = (Xv, Yv)"
    by (cases tr, cases va) auto
  show ?thesis
  proof (cases "Yt \<noteq> [] \<and> length Xt = length Yt \<and> Yv \<noteq> [] \<and> length Xv = length Yv")
    case False
    then have "\<not> ?L" using select_Inr_lengths [OF assms, of fdiv Xt Yt Xv Yv r] by (auto simp: tr va)
    moreover from False have "\<not> ?R" by (auto simp: well_shaped_def tr va)
    ultimately show ?thesis by blast
  next
    case True
    then have len: "length Xt = length Yt" "length Xv = length Yv" "Yt \<noteq> []" "Yv \<noteq> []" by auto
    let ?n = "height * width * channels"
    let ?A = "map fst (keep classes (Xt, Yt))"
    let ?B = "map fst (keep classes (Xv, Yv))"
    show ?thesis
    proof (cases "(\<forall>x \<in> set ?A. length x = ?n) \<and> (\<forall>x \<in> set ?B. length x = ?n)")
      case shaped: True
      then have rt: "reshape ?A ?n = Inr ?A" and rv: "reshape ?B ?n = Inr ?B"
        by (simp_all add: reshape_def list_all_iff)
      have ws: "well_shaped classes (Xt, Yt)" "well_shaped classes (Xv, Yv)"
        using shaped len by (simp_all add: well_shaped_def)
      show ?thesis
      proof (cases "keep classes (Xt, Yt) = []")
        case True
        then have "array_max ?A = Inl ValueError" by (simp add: array_max_def)
        then have "select_classes_from_cifar10 fdiv (tr, va) classes = Inl ValueError"
          unfolding tr va select_unfold [OF assms len] by (simp only: rt rv then_do_Inr then_do_Inl)
        with True show ?thesis by (simp add: tr)
      next
        case False
        from shaped have "concat ?A \<noteq> []"
          using concat_keep_empty [of ?A] False by simp
        then have "array_max ?A = Inr (split_max classes (Xt, Yt))"
          by (simp add: array_max_def split_max_def)
        then have "select_classes_from_cifar10 fdiv (tr, va) classes =
            Inr (filtered_split fdiv (split_max classes tr) classes tr,
                 filtered_split fdiv (split_max classes tr) classes va)"
          unfolding tr va select_unfold [OF assms len]
          by (simp only: rt rv then_do_Inr filtered_split_def)
        with False ws show ?thesis by (auto simp: tr va)
      qed
    next
      case False
      then have "\<not> (well_shaped classes tr \<and> well_shaped classes va)"
        by (auto simp: well_shaped_def tr va)
      moreover have "\<not> ?L"
        unfolding tr va select_unfold [OF assms len] using False
        by (auto simp: then_do_Inr_iff reshape_Inr_iff)
      ultimately show ?thesis by blast
    qed
  qed
qed

lemmas eval_defs = select_classes_from_cifar10_def then_do_def allowed_def boolean_index_def
  reshape_def array_max_def height_def width_def channels_def

subsection \<open>Two selected classes\<close>

lemma selected_pair:
  assumes "i < length allowed" "j < length allowed"
  shows "selected [allowed ! i, allowed ! j] y \<longleftrightarrow> y = i \<or> y = j"
  using assms nth_eq_iff_index_eq [OF distinct_allowed]
  by (auto simp: selected_def)

lemma new_label_pair:
  assumes "i < length allowed" "j < length allowed" "i \<noteq> j" "y = i \<or> y = j"
  shows "new_label [allowed ! i, allowed ! j] y = (if y = min i j then 0 else 1)"
  using assms by (auto simp: new_label_def class_id_nth min_def)

lemma keep_pair:
  assumes "i < length allowed" "j < length allowed"
  shows "keep [allowed ! i, allowed ! j] (X, Y) = filter (\<lambda>(x, y). y = i \<or> y = j) (zip X Y)"
  by (simp add: keep_def selected_pair [OF assms])

lemma labels_pair:
  assumes "i < length allowed" "j < length allowed" "i \<noteq> j"
  shows "map (\<lambda>(x, y). new_label [allowed ! i, allowed ! j] y) (filter (\<lambda>(x, y). y = i \<or> y = j) zs)
         = map (\<lambda>(x, y). if y = min i j then 0 else 1) (filter (\<lambda>(x, y). y = i \<or> y = j) zs)"
  by (rule map_cong) (auto simp: new_label_pair [OF assms])

lemma valid_pair:
  assumes "i < length allowed" "j < length allowed"
  shows "1 < length [allowed ! i, allowed ! j]" "set [allowed ! i, allowed ! j] \<subseteq> set allowed"
  using assms by simp_all

text \<open>
  Claim C1. Let the class list be two distinct names of the vocabulary, \<open>allowed ! i\<close>
  and \<open>allowed ! j\<close>. On a dataset whose splits are well shaped and whose training
  split has an example of one of the two classes, the filter returns. Whenever it
  returns, each split of the result holds, in the original order, exactly the examples
  whose original label is \<open>i\<close> or \<open>j\<close> (their pixels divided by one scalar \<open>m\<close>),
  and the new label of such an example is \<open>0\<close> when its original label is the smaller of
  \<open>i\<close> and \<open>j\<close> and \<open>1\<close> when it is the larger.
\<close>

theorem select_two_classes:
  assumes "i < length allowed" "j < length allowed" "i \<noteq> j"
  shows "(well_shaped [allowed ! i, allowed ! j] (Xt, Yt) \<and>
          well_shaped [allowed ! i, allowed ! j] (Xv, Yv) \<and> (i \<in> set Yt \<or> j \<in> set Yt)
          \<longrightarrow> (\<exists>r. select_classes_from_cifar10 fdiv ((Xt, Yt), (Xv, Yv)) [allowed ! i, allowed ! j] = Inr r))
       \<and> (\<forall>Xt' Yt' Xv' Yv'.
            select_classes_from_cifar10 fdiv ((Xt, Yt), (Xv, Yv)) [allowed ! i, allowed ! j]
              = Inr ((Xt', Yt'), (Xv', Yv'))
            \<longrightarrow> (\<exists>m.
              Xt' = map (\<lambda>(x, y). map (\<lambda>v. fdiv v m) x) (filter (\<lambda>(x, y). y = i \<or> y = j) (zip Xt Yt)) \<and>
              Yt' = map (\<lambda>(x, y). if y = min i j then 0 else 1) (filter (\<lambda>(x, y). y = i \<or> y = j) (zip Xt Yt)) \<and>
              Xv' = map (\<lambda>(x, y). map (\<lambda>v. fdiv v m) x) (filter (\<lambda>(x, y). y = i \<or> y = j) (zip Xv Yv)) \<and>
              Yv' = map (\<lambda>(x, y). if y = min i j then 0 else 1) (filter (\<lambda>(x, y). y = i \<or> y = j) (zip Xv Yv))))"
proof -
  let ?cl = "[allowed ! i, allowed ! j]"
  note iff = select_returns_iff [OF valid_pair [OF assms(1,2)], of fdiv "(Xt, Yt)" "(Xv, Yv)"]
  have nonempty: "keep ?cl (Xt, Yt) \<noteq> []" if "i \<in> set Yt \<or> j \<in> set Yt" "well_shaped ?cl (Xt, Yt)"
  proof -
    from that obtain y where "y \<in> set Yt" "y = i \<or> y = j" by blast
    then obtain k where "k < length Yt" "Yt ! k = y" by (auto simp: in_set_conv_nth)
    moreover from that(2) have "length Xt = length Yt" by (simp add: well_shaped_def)
    ultimately have "(Xt ! k, y) \<in> set (zip Xt Yt)" by (auto simp: set_zip)
    with \<open>y = i \<or> y = j\<close> have "(Xt ! k, y) \<in> set (keep ?cl (Xt, Yt))"
      by (simp add: keep_pair [OF assms(1,2)])
    then show ?thesis by auto
  qed
  have map_fst: "normalized fdiv m (map fst zs) = map (\<lambda>(x, y). map (\<lambda>v. fdiv v m) x) zs"
    for m and zs :: "(real list \<times> nat) list"
    by (simp add: normalized_def case_prod_unfold)
  show ?thesis
  proof (intro conjI allI impI)
    assume "well_shaped ?cl (Xt, Yt) \<and> well_shaped ?cl (Xv, Yv) \<and> (i \<in> set Yt \<or> j \<in> set Yt)"
    then show "\<exists>r. select_classes_from_cifar10 fdiv ((Xt, Yt), (Xv, Yv)) ?cl = Inr r"
      using iff nonempty by blast
  next
    fix Xt' Yt' Xv' Yv'
    assume "select_classes_from_cifar10 fdiv ((Xt, Yt), (Xv, Yv)) ?cl = Inr ((Xt', Yt'), (Xv', Yv'))"
    then have "((Xt', Yt'), (Xv', Yv')) =
        (filtered_split fdiv (split_max ?cl (Xt, Yt)) ?cl (Xt, Yt),
         filtered_split fdiv (split_max ?cl (Xt, Yt)) ?cl (Xv, Yv))"
      using iff by blast
    then show "\<exists>m.
              Xt' = map (\<lambda>(x, y). map (\<lambda>v. fdiv v m) x) (filter (\<lambda>(x, y). y = i \<or> y = j) (zip Xt Yt)) \<and>
              Yt' = map (\<lambda>(x, y). if y = min i j then 0 else 1) (filter (\<lambda>(x, y). y = i \<or> y = j) (zip Xt Yt)) \<and>
              Xv' = map (\<lambda>(x, y). map (\<lambda>v. fdiv v m) x) (filter (\<lambda>(x, y). y = i \<or> y = j) (zip Xv Yv)) \<and>
              Yv' = map (\<lambda>(x, y). if y = min i j then 0 else 1) (filter (\<lambda>(x, y). y = i \<or> y = j) (zip Xv Yv))"
      by (intro exI [of _ "split_max ?cl (Xt, Yt)"])
         (simp add: filtered_split_def keep_pair [OF assms(1,2)] labels_pair [OF assms] map_fst)
  qed
qed

theorem select_two_classes_witness:
  "(9::nat) < length allowed \<and> (7::nat) < length allowed \<and> (9::nat) \<noteq> 7 \<and>
   select_classes_from_cifar10 (\<lambda>x m. x / m)
      (([replicate 3072 100, replicate 3072 50, replicate 3072 60], [9, 3, 7]),
       ([replicate 3072 200], [7])) [allowed ! 9, allowed ! 7]
     = Inr (([replicate 3072 1, replicate 3072 (3 / 5)], [1, 0]), ([replicate 3072 2], [0])) \<and>
   (\<exists>m. [replicate 3072 1, replicate 3072 (3 / 5)]
          = map (\<lambda>(x, y). map (\<lambda>v. v / m) x)
              (filter (\<lambda>(x, y). y = 9 \<or> y = 7)
                 (zip [replicate 3072 (100::real), replicate 3072 50, replicate 3072 60] [9::nat, 3, 7])) \<and>
        [1, 0::real]
          = map (\<lambda>(x, y). if y = min 9 7 then 0 else 1)
              (filter (\<lambda>(x, y). y = 9 \<or> y = 7)
                 (zip [replicate 3072 (100::real), replicate 3072 50, replicate 3072 60] [9::nat, 3, 7])) \<and>
        [replicate 3072 2]
          = map (\<lambda>(x, y). map (\<lambda>v. v / m) x)
              (filter (\<lambda>(x, y). y = 9 \<or> y = 7) (zip [replicate 3072 (200::real)] [7::nat])) \<and>
        [0::real]
          = map (\<lambda>(x, y). if y = min 9 7 then 0 else 1)
              (filter (\<lambda>(x, y). y = 9 \<or> y = 7) (zip [replicate 3072 (200::real)] [7::nat])))"
proof -
  have h: "(9::nat) < length allowed" "(7::nat) < length allowed" "(9::nat) \<noteq> 7"
    by (simp_all add: allowed_def)
  have ev: "select_classes_from_cifar10 (\<lambda>x m. x / m)
      (([replicate 3072 100, replicate 3072 50, replicate 3072 60], [9, 3, 7]),
       ([replicate 3072 200], [7])) [allowed ! 9, allowed ! 7]
     = Inr (([replicate 3072 1, replicate 3072 (3 / 5)], [1, 0]), ([replicate 3072 2], [0]))"
    by (simp add: eval_defs)
  note concl = select_two_classes [OF h, THEN conjunct2, rule_format, OF ev]
  show ?thesis by (intro conjI h ev concl)
qed

subsection \<open>Validation of the class list\<close>

lemma comprehension_index_fails:
  assumes "\<not> set classes \<subseteq> set xs"
  shows "comprehension (index xs) classes = Inl ValueError"
proof -
  from assms obtain c where "c \<in> set classes" "c \<notin> set xs" by blast
  then obtain e where e: "comprehension (index xs) classes = Inl e"
    using comprehension_fails [of c classes "index xs" ValueError] by (auto simp: index_notin)
  then obtain c' where "index xs c' = Inl e" using comprehension_Inl by fastforce
  then have "e = ValueError" by (rule index_error)
  with e show ?thesis by simp
qed

lemma select_invalid:
  assumes "length classes < 2 \<or> \<not> set classes \<subseteq> set allowed"
  shows "select_classes_from_cifar10 fdiv ds classes = Inl ValueError"
proof (cases "length classes < 2")
  case True
  then have "\<not> length classes > 1" by simp
  then show ?thesis by (simp add: select_classes_from_cifar10_def)
next
  case False
  with assms have "comprehension (index allowed) classes = Inl ValueError"
    by (simp add: comprehension_index_fails)
  then show ?thesis
    by (simp add: select_classes_from_cifar10_def then_do_Inl split: prod.splits)
qed

lemma keep_nonempty:
  assumes "well_shaped classes (X, Y)" "\<exists>y \<in> set Y. selected classes y"
  shows "keep classes (X, Y) \<noteq> []"
proof -
  from assms(2) obtain y where "y \<in> set Y" "selected classes y" by blast
  then obtain k where "k < length Y" "Y ! k = y" by (auto simp: in_set_conv_nth)
  moreover from assms(1) have "length X = length Y" by (simp add: well_shaped_def)
  ultimately have "(X ! k, y) \<in> set (zip X Y)" by (auto simp: set_zip)
  with \<open>selected classes y\<close> have "(X ! k, y) \<in> set (keep classes (X, Y))"
    by (simp add: keep_def)
  then show ?thesis by auto
qed

text \<open>
  Claim C2. With fewer than two names, or with a name outside the vocabulary, the filter
  raises \<open>ValueError\<close> whatever the dataset is, so before any filtering or
  normalization (the guard rejects the short lists, \<open>allowed.index\<close> the unknown
  names). With at least two names, all of the vocabulary, the class list is accepted
  whatever the dataset is: the guard does not raise and \<open>allowed.index\<close> finds every
  name; and the filter as a whole does not raise on the dataset it is written for, one
  whose two splits are well shaped and whose training split has an example of a selected
  class.
\<close>

theorem class_list_validation:
  "(length classes < 2 \<or> \<not> set classes \<subseteq> set allowed
      \<longrightarrow> select_classes_from_cifar10 fdiv ds classes = Inl ValueError) \<and>
   (2 \<le> length classes \<and> set classes \<subseteq> set allowed \<and>
    well_shaped classes (Xt, Yt) \<and> well_shaped classes (Xv, Yv) \<and>
    (\<exists>y \<in> set Yt. selected classes y)
      \<longrightarrow> (\<exists>r. select_classes_from_cifar10 fdiv ((Xt, Yt), (Xv, Yv)) classes = Inr r)) \<and>
   (2 \<le> length classes \<and> set classes \<subseteq> set allowed
      \<longrightarrow> \<not> ((\<exists>cl \<in> set classes. \<not> cl \<in> set classes) \<or> \<not> length classes > 1) \<and>
          (\<exists>c_idx. comprehension (index allowed) classes = Inr c_idx))"
proof (intro conjI impI)
  assume "length classes < 2 \<or> \<not> set classes \<subseteq> set allowed"
  then show "select_classes_from_cifar10 fdiv ds classes = Inl ValueError"
    by (rule select_invalid)
next
  assume a: "2 \<le> length classes \<and> set classes \<subseteq> set allowed \<and>
    well_shaped classes (Xt, Yt) \<and> well_shaped classes (Xv, Yv) \<and>
    (\<exists>y \<in> set Yt. selected classes y)"
  then have v: "1 < length classes" "set classes \<subseteq> set allowed" by auto
  from a have "keep classes (Xt, Yt) \<noteq> []" using keep_nonempty by blast
  with a show "\<exists>r. select_classes_from_cifar10 fdiv ((Xt, Yt), (Xv, Yv)) classes = Inr r"
    using select_returns_iff [OF v, of fdiv "(Xt, Yt)" "(Xv, Yv)"] by blast
next
  assume "2 \<le> length classes \<and> set classes \<subseteq> set allowed"
  then show "\<not> ((\<exists>cl \<in> set classes. \<not> cl \<in> set classes) \<or> \<not> length classes > 1)"
    by simp
next
  assume "2 \<le> length classes \<and> set classes \<subseteq> set allowed"
  then have "comprehension (index allowed) classes = Inr (map class_id classes)"
    by (simp add: comprehension_classes)
  then show "\<exists>c_idx. comprehension (index allowed) classes = Inr c_idx" by blast
qed

theorem class_list_validation_witness:
  "select_classes_from_cifar10 (\<lambda>x m. x / m)
     (([replicate 3072 100], [7]), ([replicate 3072 200], [9])) [''horse''] = Inl ValueError \<and>
   select_classes_from_cifar10 (\<lambda>x m. x / m)
     (([replicate 3072 100], [7]), ([replicate 3072 200], [9])) [''horse'', ''lorry''] = Inl ValueError \<and>
   (\<exists>r. select_classes_from_cifar10 (\<lambda>x m. x / m)
     (([replicate 3072 100], [7]), ([replicate 3072 200], [9])) [''horse'', ''truck''] = Inr r) \<and>
   (\<exists>c_idx. comprehension (index allowed) [''horse'', ''truck''] = Inr c_idx)"
proof -
  have a1: "length [''horse''] < 2 \<or> \<not> set [''horse''] \<subseteq> set allowed" by simp
  have a2: "length [''horse'', ''lorry''] < 2 \<or> \<not> set [''horse'', ''lorry''] \<subseteq> set allowed"
    by (simp add: allowed_def)
  have a3: "2 \<le> length [''horse'', ''truck''] \<and> set [''horse'', ''truck''] \<subseteq> set allowed \<and>
    well_shaped [''horse'', ''truck''] ([replicate 3072 100], [7]) \<and>
    well_shaped [''horse'', ''truck''] ([replicate 3072 200], [9]) \<and>
    (\<exists>y \<in> set [7]. selected [''horse'', ''truck''] y)"
    by (simp add: well_shaped_def keep_def selected_def allowed_def height_def width_def channels_def)
  have a4: "2 \<le> length [''horse'', ''truck''] \<and> set [''horse'', ''truck''] \<subseteq> set allowed"
    by (simp add: allowed_def)
  show ?thesis
    using class_list_validation [THEN conjunct1, rule_format, OF a1]
      class_list_validation [THEN conjunct1, rule_format, OF a2]
      class_list_validation [THEN conjunct2, THEN conjunct1, rule_format, OF a3]
      class_list_validation [THEN conjunct2, THEN conjunct2, rule_format, OF a4, THEN conjunct2]
    by (intro conjI)
qed

subsection \<open>Normalization\<close>

lemma keep_rows: "set (map fst (keep classes (X, Y))) \<subseteq> set X"
  by (auto simp: keep_def dest: set_zip_leftD)



lemma rounded_div_unit:
  assumes "mono rnd" "rnd 0 = 0" "rnd 1 = 1" "0 \<le> v" "v \<le> m" "0 < m"
  shows "0 \<le> rounded_div rnd v m \<and> rounded_div rnd v m \<le> 1"
proof -
  from assms(4-6) have "0 \<le> v / m" "v / m \<le> 1" by simp_all
  with assms(1) have "rnd 0 \<le> rnd (v / m)" "rnd (v / m) \<le> rnd 1"
    by (auto dest: monoD)
  with assms(2,3) show ?thesis by (simp add: rounded_div_def)
qed

lemma rounded_div_nonneg:
  assumes "mono rnd" "rnd 0 = 0" "0 \<le> v" "0 < m"
  shows "0 \<le> rounded_div rnd v m"
proof -
  from assms(3,4) have "0 \<le> v / m" by simp
  with assms(1) have "rnd 0 \<le> rnd (v / m)" by (auto dest: monoD)
  with assms(2) show ?thesis by (simp add: rounded_div_def)
qed

lemma entry_of_mapped:
  assumes "row \<in> set (map (map f) A)" "v \<in> set row"
  shows "\<exists>x \<in> set A. \<exists>u \<in> set x. v = f u"
proof -
  from assms(1) obtain x where "x \<in> set A" "row = map f x" by auto
  moreover from this assms(2) obtain u where "u \<in> set x" "v = f u" by auto
  ultimately show ?thesis by blast
qed

text \<open>
  With non-negative pixels and the training maximum \<open>100\<close>, a selected validation image
  with pixels \<open>200\<close> is returned with entries \<open>2\<close>: the validation matrix is outside
  the unit interval.
\<close>

theorem validation_entry_above_one:
  "1 < length [''horse'', ''truck''] \<and> set [''horse'', ''truck''] \<subseteq> set allowed \<and>
   split_max [''horse'', ''truck''] ([replicate 3072 100], [7]) = 100 \<and>
   select_classes_from_cifar10 (\<lambda>x m. x / m)
      (([replicate 3072 100], [7]), ([replicate 3072 200], [9])) [''horse'', ''truck'']
     = Inr (([replicate 3072 1], [0]), ([replicate 3072 2], [1])) \<and>
   (2::real) \<in> set (concat [replicate 3072 2]) \<and> \<not> (2::real) \<le> 1"
  by (simp add: eval_defs split_max_def keep_def selected_def)

text \<open>
  Claim C4, amended. Let the division round monotonically and leave \<open>0\<close> and \<open>1\<close>
  unchanged. For a class list of at least two names of the vocabulary, non-negative pixel
  values and a positive training maximum, every entry of the returned training matrix
  lies in the closed interval from \<open>0\<close> to \<open>1\<close>; every entry of the returned
  validation matrix is non-negative, and is at most \<open>1\<close> when no pixel of a selected
  validation image exceeds the training maximum.
\<close>

theorem normalized_entries_range:
  assumes "mono rnd" "rnd 0 = 0" "rnd 1 = 1"
    and "1 < length classes" "set classes \<subseteq> set allowed"
    and "select_classes_from_cifar10 (rounded_div rnd) ((Xt, Yt), (Xv, Yv)) classes
           = Inr ((Xt', Yt'), (Xv', Yv'))"
    and "\<forall>x \<in> set Xt \<union> set Xv. \<forall>v \<in> set x. 0 \<le> v"
    and "0 < split_max classes (Xt, Yt)"
  shows "(\<forall>row \<in> set Xt'. \<forall>v \<in> set row. 0 \<le> v \<and> v \<le> 1) \<and>
         (\<forall>row \<in> set Xv'. \<forall>v \<in> set row. 0 \<le> v) \<and>
         ((\<forall>v \<in> set (concat (map fst (keep classes (Xv, Yv)))). v \<le> split_max classes (Xt, Yt))
            \<longrightarrow> (\<forall>row \<in> set Xv'. \<forall>v \<in> set row. v \<le> 1))"
proof -
  let ?m = "split_max classes (Xt, Yt)"
  let ?A = "map fst (keep classes (Xt, Yt))"
  let ?B = "map fst (keep classes (Xv, Yv))"
  from assms(6) have r:
    "((Xt', Yt'), (Xv', Yv')) =
        (filtered_split (rounded_div rnd) ?m classes (Xt, Yt),
         filtered_split (rounded_div rnd) ?m classes (Xv, Yv))"
    using select_returns_iff [OF assms(4,5), of "rounded_div rnd" "(Xt, Yt)" "(Xv, Yv)"] by blast
  then have Xt': "Xt' = map (map (\<lambda>v. rounded_div rnd v ?m)) ?A"
    and Xv': "Xv' = map (map (\<lambda>v. rounded_div rnd v ?m)) ?B"
    by (simp_all add: filtered_split_def normalized_def)
  have le_max: "v \<le> ?m" if "x \<in> set ?A" "v \<in> set x" for x v
  proof -
    from that have "v \<in> set (concat ?A)" by auto
    then show ?thesis unfolding split_max_def by (rule Max_ge [OF finite_set])
  qed
  have nonneg_t: "0 \<le> v" if "x \<in> set ?A" "v \<in> set x" for x v
    using that assms(7) keep_rows [of classes Xt Yt] by blast
  have nonneg_v: "0 \<le> v" if "x \<in> set ?B" "v \<in> set x" for x v
    using that assms(7) keep_rows [of classes Xv Yv] by blast
  have train: "\<forall>row \<in> set Xt'. \<forall>v \<in> set row. 0 \<le> v \<and> v \<le> 1"
  proof (intro ballI)
    fix row v assume "row \<in> set Xt'" "v \<in> set row"
    then obtain x u where "x \<in> set ?A" "u \<in> set x" "v = rounded_div rnd u ?m"
      unfolding Xt' using entry_of_mapped by meson
    then show "0 \<le> v \<and> v \<le> 1"
      using rounded_div_unit [OF assms(1-3) nonneg_t le_max assms(8)] by blast
  qed
  have val0: "\<forall>row \<in> set Xv'. \<forall>v \<in> set row. 0 \<le> v"
  proof (intro ballI)
    fix row v assume "row \<in> set Xv'" "v \<in> set row"
    then obtain x u where "x \<in> set ?B" "u \<in> set x" "v = rounded_div rnd u ?m"
      unfolding Xv' using entry_of_mapped by meson
    then show "0 \<le> v"
      using rounded_div_nonneg [OF assms(1,2) nonneg_v assms(8)] by blast
  qed
  have val1: "\<forall>row \<in> set Xv'. \<forall>v \<in> set row. v \<le> 1"
    if bound: "\<forall>v \<in> set (concat ?B). v \<le> ?m"
  proof (intro ballI)
    fix row v assume "row \<in> set Xv'" "v \<in> set row"
    then obtain x u where xu: "x \<in> set ?B" "u \<in> set x" "v = rounded_div rnd u ?m"
      unfolding Xv' using entry_of_mapped by meson
    then have "u \<in> set (concat ?B)" by auto
    with bound have "u \<le> ?m" by blast
    with xu show "v \<le> 1"
      using rounded_div_unit [OF assms(1-3) nonneg_v _ assms(8)] by blast
  qed
  from train val0 val1 show ?thesis by blast
qed

theorem normalized_entries_range_witness:
  "mono (\<lambda>x::real. x) \<and>
   1 < length [''horse'', ''truck''] \<and> set [''horse'', ''truck''] \<subseteq> set allowed \<and>
   select_classes_from_cifar10 (rounded_div (\<lambda>x. x))
      (([replicate 3072 100, replicate 3072 50], [7, 9]), ([replicate 3072 80], [9]))
      [''horse'', ''truck'']
     = Inr (([replicate 3072 1, replicate 3072 (1 / 2)], [0, 1]), ([replicate 3072 (4 / 5)], [1])) \<and>
   0 < split_max [''horse'', ''truck''] ([replicate 3072 100, replicate 3072 50], [7, 9]) \<and>
   (0 \<le> (1 / 2 :: real) \<and> (1 / 2 :: real) \<le> 1) \<and> (4 / 5 :: real) \<le> 1"
proof -
  have m: "mono (\<lambda>x::real. x)" by (simp add: mono_def)
  have v: "1 < length [''horse'', ''truck'']" "set [''horse'', ''truck''] \<subseteq> set allowed"
    by (simp_all add: allowed_def)
  have ev: "select_classes_from_cifar10 (rounded_div (\<lambda>x. x))
      (([replicate 3072 100, replicate 3072 50], [7, 9]), ([replicate 3072 80], [9]))
      [''horse'', ''truck'']
     = Inr (([replicate 3072 1, replicate 3072 (1 / 2)], [0, 1]), ([replicate 3072 (4 / 5)], [1]))"
    by (simp add: eval_defs rounded_div_def)
  have nn: "\<forall>x \<in> set [replicate 3072 100, replicate 3072 50] \<union> set [replicate 3072 (80::real)].
              \<forall>v \<in> set x. 0 \<le> v"
    by simp
  have mx: "split_max [''horse'', ''truck''] ([replicate 3072 100, replicate 3072 50], [7, 9]) = 100"
    by (simp add: split_max_def keep_def selected_def allowed_def)
  then have pos: "0 < split_max [''horse'', ''truck''] ([replicate 3072 100, replicate 3072 50], [7, 9])"
    by simp
  have bd: "\<forall>v \<in> set (concat (map fst (keep [''horse'', ''truck''] ([replicate 3072 80], [9])))).
              v \<le> split_max [''horse'', ''truck''] ([replicate 3072 100, replicate 3072 50], [7, 9])"
    by (simp add: mx) (simp add: keep_def selected_def allowed_def)
  note concl = normalized_entries_range [OF m refl refl v ev nn pos]
  have row_t: "replicate 3072 (1 / 2) \<in> set [replicate 3072 1, replicate 3072 (1 / 2 :: real)]"
    and row_v: "replicate 3072 (4 / 5) \<in> set [replicate 3072 (4 / 5 :: real)]"
    and in_t: "(1 / 2 :: real) \<in> set (replicate 3072 (1 / 2))"
    and in_v: "(4 / 5 :: real) \<in> set (replicate 3072 (4 / 5))"
    by simp_all
  show ?thesis
    by (intro conjI m v ev pos
        concl [THEN conjunct1, THEN bspec, OF row_t, THEN bspec, OF in_t, THEN conjunct1]
        concl [THEN conjunct1, THEN bspec, OF row_t, THEN bspec, OF in_t, THEN conjunct2]
        concl [THEN conjunct2, THEN conjunct2, THEN mp, OF bd, THEN bspec, OF row_v, THEN bspec, OF in_v])
qed

subsection \<open>The same name twice\<close>

lemma labels_same:
  assumes "i < length allowed"
  shows "map (\<lambda>(x, y). new_label [allowed ! i, allowed ! i] y) (filter (\<lambda>(x, y). y = i) zs)
         = map (\<lambda>(x, y). 0) (filter (\<lambda>(x, y). y = i) zs)"
  by (rule map_cong) (auto simp: new_label_def class_id_nth [OF assms])

lemma normalized_map_fst:
  "normalized fdiv m (map fst zs) = map (\<lambda>(x, y). map (\<lambda>v. fdiv v m) x) zs"
  for zs :: "(real list \<times> nat) list"
  by (simp add: normalized_def case_prod_unfold)

text \<open>
  Claim C10. A class list that holds the same name of the vocabulary twice is accepted:
  on well-shaped data with an example of that class in the training split the filter
  returns, and whatever it returns holds only the examples of that one class, every one
  of them with the label \<open>0\<close>.
\<close>

theorem duplicate_class_accepted:
  assumes "i < length allowed"
  shows "(well_shaped [allowed ! i, allowed ! i] (Xt, Yt) \<and>
          well_shaped [allowed ! i, allowed ! i] (Xv, Yv) \<and> i \<in> set Yt
          \<longrightarrow> (\<exists>r. select_classes_from_cifar10 fdiv ((Xt, Yt), (Xv, Yv)) [allowed ! i, allowed ! i] = Inr r))
       \<and> (\<forall>Xt' Yt' Xv' Yv'.
            select_classes_from_cifar10 fdiv ((Xt, Yt), (Xv, Yv)) [allowed ! i, allowed ! i]
              = Inr ((Xt', Yt'), (Xv', Yv'))
            \<longrightarrow> (\<exists>m.
              Xt' = map (\<lambda>(x, y). map (\<lambda>v. fdiv v m) x) (filter (\<lambda>(x, y). y = i) (zip Xt Yt)) \<and>
              Yt' = map (\<lambda>(x, y). 0) (filter (\<lambda>(x, y). y = i) (zip Xt Yt)) \<and>
              Xv' = map (\<lambda>(x, y). map (\<lambda>v. fdiv v m) x) (filter (\<lambda>(x, y). y = i) (zip Xv Yv)) \<and>
              Yv' = map (\<lambda>(x, y). 0) (filter (\<lambda>(x, y). y = i) (zip Xv Yv))))"
proof -
  let ?cl = "[allowed ! i, allowed ! i]"
  note iff = select_returns_iff [OF valid_pair [OF assms assms], of fdiv "(Xt, Yt)" "(Xv, Yv)"]
  have kp: "keep ?cl (X, Y) = filter (\<lambda>(x, y). y = i) (zip X Y)" for X Y
    using keep_pair [OF assms assms, of X Y] by simp
  show ?thesis
  proof (intro conjI allI impI)
    assume a: "well_shaped ?cl (Xt, Yt) \<and> well_shaped ?cl (Xv, Yv) \<and> i \<in> set Yt"
    then have "\<exists>y \<in> set Yt. selected ?cl y"
      using selected_pair [OF assms assms] by blast
    with a have "keep ?cl (Xt, Yt) \<noteq> []" using keep_nonempty by blast
    with a show "\<exists>r. select_classes_from_cifar10 fdiv ((Xt, Yt), (Xv, Yv)) ?cl = Inr r"
      using iff by blast
  next
    fix Xt' Yt' Xv' Yv'
    assume "select_classes_from_cifar10 fdiv ((Xt, Yt), (Xv, Yv)) ?cl = Inr ((Xt', Yt'), (Xv', Yv'))"
    then have "((Xt', Yt'), (Xv', Yv')) =
        (filtered_split fdiv (split_max ?cl (Xt, Yt)) ?cl (Xt, Yt),
         filtered_split fdiv (split_max ?cl (Xt, Yt)) ?cl (Xv, Yv))"
      using iff by blast
    then show "\<exists>m.
              Xt' = map (\<lambda>(x, y). map (\<lambda>v. fdiv v m) x) (filter (\<lambda>(x, y). y = i) (zip Xt Yt)) \<and>
              Yt' = map (\<lambda>(x, y). 0) (filter (\<lambda>(x, y). y = i) (zip Xt Yt)) \<and>
              Xv' = map (\<lambda>(x, y). map (\<lambda>v. fdiv v m) x) (filter (\<lambda>(x, y). y = i) (zip Xv Yv)) \<and>
              Yv' = map (\<lambda>(x, y). 0) (filter (\<lambda>(x, y). y = i) (zip Xv Yv))"
      by (intro exI [of _ "split_max ?cl (Xt, Yt)"])
         (simp add: filtered_split_def kp labels_same [OF assms] normalized_map_fst)
  qed
qed

theorem duplicate_class_accepted_witness:
  "(7::nat) < length allowed \<and>
   select_classes_from_cifar10 (\<lambda>x m. x / m)
      (([replicate 3072 100, replicate 3072 50], [7, 9]),
       ([replicate 3072 80, replicate 3072 20, replicate 3072 40], [7, 3, 7]))
      [''horse'', ''horse'']
     = Inr (([replicate 3072 1], [0]), ([replicate 3072 (4 / 5), replicate 3072 (2 / 5)], [0, 0])) \<and>
   (\<exists>m. [replicate 3072 1]
          = map (\<lambda>(x, y). map (\<lambda>v. v / m) x)
              (filter (\<lambda>(x, y). y = 7) (zip [replicate 3072 (100::real), replicate 3072 50] [7::nat, 9])) \<and>
        [0::real]
          = map (\<lambda>(x, y). 0)
              (filter (\<lambda>(x, y). y = 7) (zip [replicate 3072 (100::real), replicate 3072 50] [7::nat, 9])) \<and>
        [replicate 3072 (4 / 5), replicate 3072 (2 / 5)]
          = map (\<lambda>(x, y). map (\<lambda>v. v / m) x)
              (filter (\<lambda>(x, y). y = 7)
                 (zip [replicate 3072 (80::real), replicate 3072 20, replicate 3072 40] [7::nat, 3, 7])) \<and>
        [0, 0::real]
          = map (\<lambda>(x, y). 0)
              (filter (\<lambda>(x, y). y = 7)
                 (zip [replicate 3072 (80::real), replicate 3072 20, replicate 3072 40] [7::nat, 3, 7])))"
proof -
  have h: "(7::nat) < length allowed" by (simp add: allowed_def)
  have nm: "allowed ! 7 = ''horse''" by (simp add: allowed_def)
  have ev: "select_classes_from_cifar10 (\<lambda>x m. x / m)
      (([replicate 3072 100, replicate 3072 50], [7, 9]),
       ([replicate 3072 80, replicate 3072 20, replicate 3072 40], [7, 3, 7]))
      [''horse'', ''horse'']
     = Inr (([replicate 3072 1], [0]), ([replicate 3072 (4 / 5), replicate 3072 (2 / 5)], [0, 0]))"
    by (simp add: eval_defs)
  note concl = duplicate_class_accepted [OF h, THEN conjunct2, rule_format, OF ev [folded nm]]
  show ?thesis by (intro conjI h ev concl)
qed

section \<open>Properties of the model\<close>

lemma sigmoid_bounds: "0 < sigmoid z \<and> sigmoid z < 1"
proof -
  have "0 < exp (- z)" by simp
  then have d: "1 < 1 + exp (- z)" by simp
  then have "0 < 1 + exp (- z)" by (rule less_trans [OF zero_less_one])
  with d show ?thesis unfolding sigmoid_def
    by (simp only: zero_less_divide_1_iff divide_less_eq_1_pos simp_thms)
qed

text \<open>
  Claim C5. For every input whose feature vectors have the length of the weight vector,
  and every weight vector and bias, \<open>predict\<close> returns one output per feature vector,
  \<open>sigmoid(dot(x, w) + b)\<close>, and every output is strictly greater than \<open>0\<close> and
  strictly less than \<open>1\<close>.
\<close>

theorem model_output_in_unit_interval:
  assumes "\<forall>row \<in> set x. length row = length (w vs)"
  shows "\<exists>out. predict x vs = Inr out \<and> length out = length x \<and>
           (\<forall>k < length x. out ! k = sigmoid (dot (x ! k) (w vs) + b vs) \<and>
                            0 < out ! k \<and> out ! k < 1)"
  using assms by (simp add: predict_def list_all_iff sigmoid_bounds)

theorem model_output_in_unit_interval_witness:
  "\<exists>out. predict [[1, 2], [0, - 40]] \<lparr>w = [3, 4], b = 5, lr = 1\<rparr> = Inr out \<and>
      length out = 2 \<and> out ! 0 = sigmoid 16 \<and> 0 < out ! 1 \<and> out ! 1 < 1"
proof -
  have h: "\<forall>row \<in> set [[1, 2], [0, - 40 :: real]]. length row = length (w \<lparr>w = [3, 4 :: real], b = 5, lr = 1\<rparr>)"
    by simp
  from model_output_in_unit_interval [OF h]
  obtain out where o: "predict [[1, 2], [0, - 40]] \<lparr>w = [3, 4], b = 5, lr = 1\<rparr> = Inr out"
      "length out = length [[1, 2], [0, - 40 :: real]]"
      "\<forall>k < length [[1, 2], [0, - 40 :: real]].
          out ! k = sigmoid (dot ([[1, 2], [0, - 40]] ! k) (w \<lparr>w = [3, 4], b = 5, lr = 1\<rparr>)
                             + b \<lparr>w = [3, 4 :: real], b = 5, lr = 1\<rparr>) \<and>
          0 < out ! k \<and> out ! k < 1"
    by blast
  from o(3) [rule_format, of 0] have "out ! 0 = sigmoid 16"
    by (simp add: dot_def)
  moreover from o(3) [rule_format, of 1] have "0 < out ! 1 \<and> out ! 1 < 1"
    by simp
  ultimately show ?thesis using o(1,2) by auto
qed

section \<open>Properties of the loss\<close>

lemma binary_crossentropy_nonneg:
  assumes "0 < p" "p < 1" "t = 0 \<or> t = 1"
  shows "0 \<le> binary_crossentropy p t"
  using assms by (auto simp: binary_crossentropy_def)

lemma binary_crossentropy_dist:
  assumes "0 < p" "p < 1" "t = 0 \<or> t = 1"
  shows "binary_crossentropy p t = - ln (1 - \<bar>p - t\<bar>)"
  using assms by (auto simp: binary_crossentropy_def abs_if)

lemma sum_list_nonneg_ge:
  fixes xs :: "real list"
  assumes "\<forall>x \<in> set xs. 0 \<le> x" "k < length xs"
  shows "xs ! k \<le> sum_list xs"
  using assms
proof (induction xs arbitrary: k)
  case Nil
  then show ?case by simp
next
  case (Cons x xs)
  then have "0 \<le> sum_list xs" by (simp add: sum_list_nonneg)
  with Cons show ?case by (cases k) (auto simp: add.commute add_increasing2 intro: add_increasing)
qed

lemma sum_list_less:
  fixes xs :: "real list"
  assumes "\<forall>x \<in> set xs. x < c" "xs \<noteq> []"
  shows "sum_list xs < c * real (length xs)"
  using assms
proof (induction xs)
  case Nil
  then show ?case by simp
next
  case (Cons x xs)
  show ?case
  proof (cases "xs = []")
    case True
    with Cons.prems show ?thesis by simp
  next
    case False
    with Cons have "sum_list xs < c * real (length xs)" "x < c" by auto
    then show ?thesis by (simp add: algebra_simps)
  qed
qed

lemma terms_nonneg:
  assumes "batch ps ts"
  shows "\<forall>x \<in> set (map2 binary_crossentropy ps ts). 0 \<le> x"
proof
  fix x assume "x \<in> set (map2 binary_crossentropy ps ts)"
  then obtain p t where "(p, t) \<in> set (zip ps ts)" "x = binary_crossentropy p t" by auto
  moreover from this have "p \<in> set ps" "t \<in> set ts" by (auto dest: set_zip_leftD set_zip_rightD)
  ultimately show "0 \<le> x" using assms by (auto simp: batch_def intro!: binary_crossentropy_nonneg)
qed

lemma loss_nonneg: "batch ps ts \<Longrightarrow> 0 \<le> loss ps ts"
  unfolding loss_def mean_def using terms_nonneg [of ps ts]
  by (intro divide_nonneg_nonneg sum_list_nonneg) auto

lemma loss_as_sum:
  "length ps = length ts \<Longrightarrow>
   loss ps ts = (\<Sum>k < length ps. - (ts ! k) * ln (ps ! k) - (1 - ts ! k) * ln (1 - ps ! k)) / real (length ps)"
  unfolding loss_def mean_def
  by (simp add: sum_list_sum_nth binary_crossentropy_def atLeast0LessThan)

lemma loss_small:
  assumes "batch ps ts" "0 < eps"
    and "\<forall>k < length ps. \<bar>ps ! k - ts ! k\<bar> < 1 - exp (- eps)"
  shows "loss ps ts < eps"
proof -
  let ?xs = "map2 binary_crossentropy ps ts"
  from assms(1) have len: "length ps = length ts" "ps \<noteq> []" by (simp_all add: batch_def)
  have "\<forall>x \<in> set ?xs. x < eps"
  proof
    fix x assume "x \<in> set ?xs"
    then obtain k where k: "k < length ps" "x = binary_crossentropy (ps ! k) (ts ! k)"
      using len by (auto simp: in_set_conv_nth)
    with assms(1) len have pt: "0 < ps ! k" "ps ! k < 1" "ts ! k = 0 \<or> ts ! k = 1"
      by (auto simp: batch_def)
    from assms(3) k have "\<bar>ps ! k - ts ! k\<bar> < 1 - exp (- eps)" by blast
    then have "exp (- eps) < 1 - \<bar>ps ! k - ts ! k\<bar>" by simp
    then have "- eps < ln (1 - \<bar>ps ! k - ts ! k\<bar>)"
      by (metis exp_gt_zero exp_less_cancel_iff exp_ln less_trans)
    then show "x < eps" using k binary_crossentropy_dist [OF pt] by simp
  qed
  moreover have "?xs \<noteq> []" using len by (cases ps; cases ts) auto
  ultimately have "sum_list ?xs < eps * real (length ?xs)" by (rule sum_list_less)
  moreover have "0 < real (length ?xs)" using \<open>?xs \<noteq> []\<close> by simp
  ultimately show ?thesis unfolding loss_def mean_def
    by (simp add: pos_divide_less_eq)
qed

lemma loss_large:
  assumes "batch ps ts" "0 \<le> M" "k < length ps"
    and "\<bar>ps ! k - (1 - ts ! k)\<bar> < exp (- M * real (length ps))"
  shows "M < loss ps ts"
proof -
  let ?xs = "map2 binary_crossentropy ps ts"
  from assms(1) have len: "length ps = length ts" "ps \<noteq> []" by (simp_all add: batch_def)
  with assms(1,3) have pt: "0 < ps ! k" "ps ! k < 1" "ts ! k = 0 \<or> ts ! k = 1"
    by (auto simp: batch_def)
  have n: "0 < real (length ps)" using len(2) by simp
  from pt have eq: "1 - \<bar>ps ! k - ts ! k\<bar> = \<bar>ps ! k - (1 - ts ! k)\<bar>" by auto
  from pt have pos: "0 < \<bar>ps ! k - (1 - ts ! k)\<bar>" by auto
  from assms(4) pos have "ln \<bar>ps ! k - (1 - ts ! k)\<bar> < - M * real (length ps)"
    by (metis exp_less_cancel_iff exp_ln)
  then have "M * real (length ps) < binary_crossentropy (ps ! k) (ts ! k)"
    using binary_crossentropy_dist [OF pt] eq by simp
  also have "\<dots> = ?xs ! k" using assms(3) len by simp
  also have "\<dots> \<le> sum_list ?xs"
    by (rule sum_list_nonneg_ge) (use terms_nonneg [OF assms(1)] assms(3) len in auto)
  finally show ?thesis unfolding loss_def mean_def using n len
    by (simp add: pos_less_divide_eq)
qed

text \<open>
  Claim C6. On a batch of predictions strictly between \<open>0\<close> and \<open>1\<close> and targets
  \<open>0\<close> or \<open>1\<close>, the loss is the arithmetic mean of
  \<open>-t log(p) - (1 - t) log(1 - p)\<close> over the examples and it is non-negative. For the
  targets of the batch, the loss is below any positive bound once every prediction is
  close enough to its target, and above any bound once one prediction is close enough to
  the opposite of its target.
\<close>

theorem cross_entropy_loss:
  assumes "batch ps ts"
  shows "loss ps ts
           = (\<Sum>k < length ps. - (ts ! k) * ln (ps ! k) - (1 - ts ! k) * ln (1 - ps ! k))
             / real (length ps) \<and>
         0 \<le> loss ps ts \<and>
         (\<forall>eps > 0. \<exists>d > 0. \<forall>qs.
            batch qs ts \<and> (\<forall>k < length ts. \<bar>qs ! k - ts ! k\<bar> < d) \<longrightarrow> loss qs ts < eps) \<and>
         (\<forall>M. \<exists>d > 0. \<forall>qs.
            batch qs ts \<and> (\<exists>k < length ts. \<bar>qs ! k - (1 - ts ! k)\<bar> < d) \<longrightarrow> M < loss qs ts)"
proof (intro conjI allI impI)
  from assms have "length ps = length ts" by (simp add: batch_def)
  then show "loss ps ts
           = (\<Sum>k < length ps. - (ts ! k) * ln (ps ! k) - (1 - ts ! k) * ln (1 - ps ! k))
             / real (length ps)"
    by (rule loss_as_sum)
next
  from assms show "0 \<le> loss ps ts" by (rule loss_nonneg)
next
  fix eps :: real assume eps: "0 < eps"
  show "\<exists>d > 0. \<forall>qs. batch qs ts \<and> (\<forall>k < length ts. \<bar>qs ! k - ts ! k\<bar> < d) \<longrightarrow> loss qs ts < eps"
  proof (intro exI conjI allI impI)
    from eps show "0 < 1 - exp (- eps)" by simp
  next
    fix qs assume q: "batch qs ts \<and> (\<forall>k < length ts. \<bar>qs ! k - ts ! k\<bar> < 1 - exp (- eps))"
    then have "length qs = length ts" by (simp add: batch_def)
    with q show "loss qs ts < eps" using loss_small [of qs ts eps] eps by simp
  qed
next
  fix M :: real
  let ?d = "exp (- max M 0 * real (length ts))"
  show "\<exists>d > 0. \<forall>qs. batch qs ts \<and> (\<exists>k < length ts. \<bar>qs ! k - (1 - ts ! k)\<bar> < d) \<longrightarrow> M < loss qs ts"
  proof (intro exI conjI allI impI)
    show "0 < ?d" by simp
  next
    fix qs assume q: "batch qs ts \<and> (\<exists>k < length ts. \<bar>qs ! k - (1 - ts ! k)\<bar> < ?d)"
    then have len: "length qs = length ts" by (simp add: batch_def)
    from q obtain k where "k < length ts" "\<bar>qs ! k - (1 - ts ! k)\<bar> < ?d" by blast
    with q len have "max M 0 < loss qs ts"
      using loss_large [of qs ts "max M 0" k] by simp
    then show "M < loss qs ts" by simp
  qed
qed

theorem cross_entropy_loss_witness:
  "0 \<le> loss [1 / 2] [1] \<and> loss [1 / 2] [1] = - ln (1 / 2)"
proof -
  have h: "batch [1 / 2] [1]" by (simp add: batch_def)
  have "loss [1 / 2] [1] = - ln (1 / 2)"
    using cross_entropy_loss [OF h, THEN conjunct1] by simp
  then show ?thesis using cross_entropy_loss [OF h, THEN conjunct2, THEN conjunct1] by simp
qed

section \<open>Properties of the training loop\<close>

text \<open>
  Claim C7. One call of \<open>train\<close> replaces \<open>w\<close> by \<open>w - lr * grad_w\<close>, entry by
  entry, and \<open>b\<close> by \<open>b - lr * grad_b\<close>, where the gradients are the ones of the
  state before the call; \<open>lr\<close> and the rest of the state are unchanged, and the output
  is the loss before the update. The new state is a function of these inputs only.
\<close>

theorem train_step_update:
  assumes "grads (w vs) (b vs) inputs = (grad_w, grad_b)" "length grad_w = length (w vs)"
  shows "length (w (snd (train loss_of grads inputs vs))) = length (w vs) \<and>
         (\<forall>k < length (w vs). w (snd (train loss_of grads inputs vs)) ! k = w vs ! k - lr vs * grad_w ! k) \<and>
         b (snd (train loss_of grads inputs vs)) = b vs - lr vs * grad_b \<and>
         lr (snd (train loss_of grads inputs vs)) = lr vs \<and>
         variables.more (snd (train loss_of grads inputs vs)) = variables.more vs \<and>
         fst (train loss_of grads inputs vs) = [loss_of (w vs) (b vs) inputs]"
  using assms by (simp add: train_def updates_def)

theorem train_step_update_witness:
  "(\<lambda>ws bs inputs. ([4, 6], 2)) (w \<lparr>w = [1, 2], b = 3, lr = 1 / 2\<rparr>) (b \<lparr>w = [1, 2], b = 3, lr = 1 / 2\<rparr>) ([], [])
     = ([4, 6 :: real], 2 :: real) \<and>
   length [4, 6 :: real] = length (w \<lparr>w = [1, 2 :: real], b = 3, lr = 1 / 2\<rparr>) \<and>
   snd (train (\<lambda>ws bs inputs. bs) (\<lambda>ws bs inputs. ([4, 6], 2)) ([], []) \<lparr>w = [1, 2], b = 3, lr = 1 / 2\<rparr>)
     = \<lparr>w = [- 1, - 1 :: real], b = 2, lr = 1 / 2\<rparr>"
proof -
  let ?vs = "\<lparr>w = [1, 2 :: real], b = 3, lr = 1 / 2\<rparr>"
  let ?g = "\<lambda>(ws :: real list) (bs :: real) (inputs :: real inputs). ([4, 6 :: real], 2 :: real)"
  let ?l = "\<lambda>(ws :: real list) (bs :: real) (inputs :: real inputs). bs"
  let ?vs' = "snd (train ?l ?g ([], []) ?vs)"
  have h1: "?g (w ?vs) (b ?vs) ([], []) = ([4, 6], 2)" by simp
  have h2: "length [4, 6 :: real] = length (w ?vs)" by simp
  note c = train_step_update [of ?g ?vs "([], [])" "[4, 6]" 2 ?l, OF h1 h2]
  from c have "length (w ?vs') = 2" "w ?vs' ! 0 = - 1" "w ?vs' ! 1 = - 1" by simp_all
  then have "w ?vs' = [- 1, - 1]"
    by (intro nth_equalityI) (auto simp: less_Suc_eq numeral_2_eq_2)
  moreover from c have "b ?vs' = 2" "lr ?vs' = 1 / 2" by simp_all
  ultimately have "?vs' = \<lparr>w = [- 1, - 1], b = 2, lr = 1 / 2\<rparr>" by (intro variables.equality) simp_all
  with h1 h2 show ?thesis by simp
qed

subsection \<open>Epochs\<close>

lemma epoch_body_eq:
  "epoch_body loss_of grads train_set val_set epoch st =
     (let st1 = snd (train loss_of grads train_set st);
          loss_train = loss_of (w st) (b st) train_set;
          loss_val = loss_of (w st1) (b st1) val_set
      in st1\<lparr>train_loss_history := train_loss_history st @ [loss_train],
              val_loss_history := val_loss_history st @ [loss_val],
              printed := (if epoch mod 10 = 0 then printed st @ [(loss_train, loss_val)] else printed st)\<rparr>)"
  by (simp add: epoch_body_def train_def compute_loss_def Let_def)

lemma training_0:
  "training loss_of grads train_set val_set 0 st = st\<lparr>train_loss_history := [], val_loss_history := []\<rparr>"
  by (simp add: training_def)

lemma training_Suc:
  "training loss_of grads train_set val_set (Suc n) st =
     epoch_body loss_of grads train_set val_set n (training loss_of grads train_set val_set n st)"
  by (simp add: training_def)

lemma training_split:
  "e \<le> n \<Longrightarrow> training loss_of grads train_set val_set n st =
     fold (epoch_body loss_of grads train_set val_set) [e..<n] (training loss_of grads train_set val_set e st)"
proof -
  assume "e \<le> n"
  then have "[0..<n] = [0..<e] @ [e..<n]"
    by (metis le_add_diff_inverse upt_add_eq_append zero_le)
  then show ?thesis by (simp add: training_def)
qed

lemma truncate_train:
  "variables.truncate (snd (train loss_of grads inputs st)) = snd (train loss_of grads inputs (variables.truncate st))"
  by (simp add: train_def updates_def variables.truncate_def)

lemma truncate_epoch_body:
  "variables.truncate (epoch_body loss_of grads train_set val_set epoch st)
     = variables.truncate (snd (train loss_of grads train_set st))"
  by (simp add: epoch_body_eq Let_def variables.truncate_def)

lemma truncate_training:
  "variables.truncate (training loss_of grads train_set val_set n st)
     = ((\<lambda>vs. snd (train loss_of grads train_set vs)) ^^ n) (variables.truncate st)"
proof (induction n)
  case 0
  then show ?case by (simp add: training_0 variables.truncate_def)
next
  case (Suc n)
  then show ?case by (simp add: training_Suc truncate_epoch_body truncate_train)
qed

text \<open>
  Claim C8. The call of \<open>compute_loss\<close> returns the state it was given, so \<open>w\<close> and
  \<open>b\<close> are as before. The variables after an epoch are the variables after its one call
  of \<open>train\<close> on the training batch, and the variables after \<open>n\<close> epochs are those
  obtained by \<open>n\<close> successive calls of \<open>train\<close>.
\<close>

theorem validation_leaves_parameters:
  "snd (compute_loss loss_of val_set st) = st \<and>
   variables.truncate (epoch_body loss_of grads train_set val_set epoch st)
     = variables.truncate (snd (train loss_of grads train_set st)) \<and>
   variables.truncate (training loss_of grads train_set val_set n st)
     = ((\<lambda>vs. snd (train loss_of grads train_set vs)) ^^ n) (variables.truncate st)"
  by (simp add: compute_loss_def truncate_epoch_body truncate_training)

lemma history_epoch_body:
  "train_loss_history (epoch_body loss_of grads train_set val_set epoch st)
     = train_loss_history st @ [loss_of (w st) (b st) train_set]"
  "val_loss_history (epoch_body loss_of grads train_set val_set epoch st)
     = val_loss_history st @
       [loss_of (w (snd (train loss_of grads train_set st))) (b (snd (train loss_of grads train_set st))) val_set]"
  by (simp_all add: epoch_body_eq Let_def)

lemma history_length:
  "length (train_loss_history (training loss_of grads train_set val_set n st)) = n \<and>
   length (val_loss_history (training loss_of grads train_set val_set n st)) = n"
  by (induction n) (simp_all add: training_0 training_Suc history_epoch_body)

lemma history_prefix:
  "e \<le> n \<Longrightarrow>
   take e (train_loss_history (training loss_of grads train_set val_set n st))
     = train_loss_history (training loss_of grads train_set val_set e st) \<and>
   take e (val_loss_history (training loss_of grads train_set val_set n st))
     = val_loss_history (training loss_of grads train_set val_set e st)"
proof (induction n)
  case 0
  then show ?case by (simp add: training_0)
next
  case (Suc n)
  show ?case
  proof (cases "e = Suc n")
    case True
    then show ?thesis using history_length [of loss_of grads train_set val_set "Suc n" st] by simp
  next
    case False
    with Suc.prems have "e \<le> n" by simp
    with Suc.IH show ?thesis
      using history_length [of loss_of grads train_set val_set n st]
      by (simp add: training_Suc history_epoch_body)
  qed
qed

text \<open>
  Claim C9. The loop is a fold over the \<open>n\<close> epochs \<open>0, ..., n - 1\<close>: it ends, and it
  passes through the state reached after \<open>e\<close> epochs for every \<open>e \<le> n\<close>. After
  \<open>e\<close> epochs each history has \<open>e\<close> entries, and they are the first \<open>e\<close> entries of
  the final history; epoch \<open>e\<close> appends to each history one entry, the training loss
  before its update and the validation loss after it. At the end both histories have
  \<open>n\<close> entries.
\<close>

theorem loss_histories:
  assumes "e \<le> n"
  shows "training loss_of grads train_set val_set n st
           = fold (epoch_body loss_of grads train_set val_set) [e..<n]
               (training loss_of grads train_set val_set e st) \<and>
         length (train_loss_history (training loss_of grads train_set val_set e st)) = e \<and>
         length (val_loss_history (training loss_of grads train_set val_set e st)) = e \<and>
         take e (train_loss_history (training loss_of grads train_set val_set n st))
           = train_loss_history (training loss_of grads train_set val_set e st) \<and>
         take e (val_loss_history (training loss_of grads train_set val_set n st))
           = val_loss_history (training loss_of grads train_set val_set e st) \<and>
         length (train_loss_history (training loss_of grads train_set val_set n st)) = n \<and>
         length (val_loss_history (training loss_of grads train_set val_set n st)) = n \<and>
         (e < n \<longrightarrow>
            train_loss_history (training loss_of grads train_set val_set (Suc e) st)
              = train_loss_history (training loss_of grads train_set val_set e st) @
                [loss_of (w (training loss_of grads train_set val_set e st))
                         (b (training loss_of grads train_set val_set e st)) train_set] \<and>
            val_loss_history (training loss_of grads train_set val_set (Suc e) st)
              = val_loss_history (training loss_of grads train_set val_set e st) @
                [loss_of (w (training loss_of grads train_set val_set (Suc e) st))
                         (b (training loss_of grads train_set val_set (Suc e) st)) val_set])"
proof -
  have wb: "w (epoch_body loss_of grads train_set val_set k s) = w (snd (train loss_of grads train_set s))"
           "b (epoch_body loss_of grads train_set val_set k s) = b (snd (train loss_of grads train_set s))"
    for k s
    by (simp_all add: epoch_body_eq Let_def)
  show ?thesis
    using training_split [OF assms, of loss_of grads train_set val_set st]
      history_prefix [OF assms, of loss_of grads train_set val_set st]
      history_length [of loss_of grads train_set val_set n st]
      history_length [of loss_of grads train_set val_set e st]
    by (simp add: training_Suc history_epoch_body wb)
qed

theorem loss_histories_witness:
  "(2::nat) \<le> 3 \<and>
   training (\<lambda>ws bs inputs. bs) (\<lambda>ws bs inputs. (map (\<lambda>x. 1) ws, 1)) ([], []) ([], []) 3
     \<lparr>w = [0, 0], b = 5, lr = 1, train_loss_history = [9], val_loss_history = [], printed = []\<rparr>
   = \<lparr>w = [- 3, - 3], b = 2 :: real, lr = 1, train_loss_history = [5, 4, 3],
      val_loss_history = [4, 3, 2], printed = [(5, 4)]\<rparr> \<and>
   take 2 [5, 4, 3 :: real]
     = train_loss_history
         (training (\<lambda>ws bs inputs. bs) (\<lambda>ws bs inputs. (map (\<lambda>x. 1) ws, 1)) ([], []) ([], []) 2
            \<lparr>w = [0, 0], b = 5, lr = 1, train_loss_history = [9], val_loss_history = [], printed = []\<rparr>)"
proof -
  let ?l = "\<lambda>(ws :: real list) (bs :: real) (inputs :: real inputs). bs"
  let ?g = "\<lambda>(ws :: real list) (bs :: real) (inputs :: real inputs). (map (\<lambda>x. 1 :: real) ws, 1 :: real)"
  let ?st = "\<lparr>w = [0, 0 :: real], b = 5, lr = 1, train_loss_history = [9], val_loss_history = [],
              printed = []\<rparr>"
  have le: "(2::nat) \<le> 3" by simp
  have ev: "training ?l ?g ([], []) ([], []) 3 ?st
      = \<lparr>w = [- 3, - 3], b = 2, lr = 1, train_loss_history = [5, 4, 3],
         val_loss_history = [4, 3, 2], printed = [(5, 4)]\<rparr>"
    by (simp add: training_def epoch_body_eq train_def updates_def Let_def upt_rec)
  have "take 2 (train_loss_history (training ?l ?g ([], []) ([], []) 3 ?st))
      = train_loss_history (training ?l ?g ([], []) ([], []) 2 ?st)"
    using loss_histories [OF le, of ?l ?g "([], [])" "([], [])" ?st] by blast
  with le ev show ?thesis by simp
qed

end
